theory Spec2Isabelle
  imports Main
begin

section \<open>The document\<close>

text \<open>
  The scripts \<^verbatim>\<open>js/htmx-r-observer.js\<close> (\<^verbatim>\<open>HtmxRObserver\<close>) and
  \<^verbatim>\<open>js/htmx-r-scroll.js\<close> (\<^verbatim>\<open>HtmxRScroll\<close>) read four things of a DOM element: the
  attributes \<^verbatim>\<open>id\<close> and \<^verbatim>\<open>href\<close>, the class list, and the position of the element in
  the document. An element is a record of these, with its tag and whether it lies
  inside an \<^verbatim>\<open>aside\<close>. The document is the list of its elements in document order, and a
  node reference is an index into it: the scripts never add or remove elements, they
  only change class lists.

  An attribute that is absent is \<open>None\<close>, as \<^verbatim>\<open>getAttribute\<close> returns \<^verbatim>\<open>null\<close>.
\<close>

record element =
  tag :: string
  inAside :: bool
  idAttr :: "string option"
  hrefAttr :: "string option"
  docTop :: int
  classList :: "string list"

type_synonym document = "element list"
type_synonym node = nat

text \<open>
  What the scripts can throw, all of it thrown by the platform. Code that throws may
  have changed the state before: its result is the state it ends in, tagged with the
  exception when there is one.
\<close>

datatype error = TypeError | SyntaxError | InvalidCharacterError

type_synonym 'a result = "(error \<times> 'a) + 'a"

definition after :: "'a result \<Rightarrow> 'a" where
  "after r = (case r of Inl (e, x) \<Rightarrow> x | Inr x \<Rightarrow> x)"

text \<open>
  The scripts hand selectors to the platform as strings, some of them pasted together
  from an identifier. The platform's selector engine is a parameter of the model: it
  either rejects a string (\<open>None\<close>: \<^verbatim>\<open>querySelector\<close> throws a \<^verbatim>\<open>SyntaxError\<close>) or says
  which nodes of a document match.
\<close>

type_synonym selector = "document \<Rightarrow> node \<Rightarrow> bool"
type_synonym engine = "string \<Rightarrow> selector option"

definition querySelectorAll :: "engine \<Rightarrow> document \<Rightarrow> string \<Rightarrow> error + node list" where
  "querySelectorAll css d str =
     (case css str of
        None \<Rightarrow> Inl SyntaxError
      | Some m \<Rightarrow> Inr (filter (m d) [0..<length d]))"

definition querySelector :: "engine \<Rightarrow> document \<Rightarrow> string \<Rightarrow> error + node option" where
  "querySelector css d str =
     (case querySelectorAll css d str of
        Inl e \<Rightarrow> Inl e
      | Inr [] \<Rightarrow> Inr None
      | Inr (n # _) \<Rightarrow> Inr (Some n))"

text \<open>\<^verbatim>\<open>document.getElementById\<close>: the first element with that id; the empty id names none.\<close>

definition getElementById :: "document \<Rightarrow> string \<Rightarrow> node option" where
  "getElementById d i =
     (if i = [] then None
      else case filter (\<lambda>n. idAttr (d ! n) = Some i) [0..<length d] of
             [] \<Rightarrow> None
           | n # _ \<Rightarrow> Some n)"

text \<open>\<^verbatim>\<open>element.getAttribute('id')\<close> of a node of the document.\<close>

definition getAttribute_id :: "document \<Rightarrow> node \<Rightarrow> string option" where
  "getAttribute_id d n = (if n < length d then idAttr (d ! n) else None)"

text \<open>
  \<^verbatim>\<open>classList.remove(c)\<close> and \<^verbatim>\<open>classList.add(c)\<close>. Both throw on a token that is empty
  (\<^verbatim>\<open>SyntaxError\<close>) or contains white space (\<^verbatim>\<open>InvalidCharacterError\<close>), before they change
  anything. For a valid token, the class list is an ordered set of tokens and \<^verbatim>\<open>add\<close>
  appends a token that is not there yet.
\<close>

definition whiteSpace :: "char \<Rightarrow> bool" where
  "whiteSpace c = (c \<in> set [CHR 0x09, CHR 0x0A, CHR 0x0C, CHR 0x0D, CHR 0x20])"

definition tokenError :: "string \<Rightarrow> error option" where
  "tokenError c =
     (if c = [] then Some SyntaxError
      else if list_ex whiteSpace c then Some InvalidCharacterError
      else None)"

definition classList_remove :: "string \<Rightarrow> node \<Rightarrow> document \<Rightarrow> document" where
  "classList_remove c n d =
     (if n < length d
      then d[n := (d ! n)\<lparr>classList := filter (\<lambda>x. x \<noteq> c) (classList (d ! n))\<rparr>]
      else d)"

definition classList_add :: "string \<Rightarrow> node \<Rightarrow> document \<Rightarrow> document" where
  "classList_add c n d =
     (if n < length d
      then d[n := (d ! n)\<lparr>classList :=
             (if c \<in> set (classList (d ! n)) then classList (d ! n)
              else classList (d ! n) @ [c])\<rparr>]
      else d)"

text \<open>
  \<^verbatim>\<open>navLinks.forEach(link => link.classList.remove(activeClass))\<close>: with an invalid token
  the first link throws; with no link nothing is called.
\<close>

definition removeFromAll :: "string \<Rightarrow> node list \<Rightarrow> document \<Rightarrow> document result" where
  "removeFromAll c links d =
     (case tokenError c of
        Some e \<Rightarrow> (if links = [] then Inr d else Inl (e, d))
      | None \<Rightarrow> Inr (fold (classList_remove c) links d))"

text \<open>A template literal prints \<^verbatim>\<open>null\<close> as the four letters.\<close>

definition templateString :: "string option \<Rightarrow> string" where
  "templateString v = (case v of None \<Rightarrow> ''null'' | Some s \<Rightarrow> s)"

text \<open>
  A number in a template literal: an integer prints in decimal, with a minus sign when
  negative.
\<close>

fun digits :: "nat \<Rightarrow> string" where
  "digits n = (if n < 10 then [''0123456789'' ! n]
               else digits (n div 10) @ [''0123456789'' ! (n mod 10)])"

declare digits.simps [simp del]

definition numberToString :: "int \<Rightarrow> string" where
  "numberToString i = (if i < 0 then CHR ''-'' # digits (nat (- i)) else digits (nat i))"

section \<open>The page: host timers and the observer's closure\<close>

text \<open>
  The state of a page is the document, the host's clock (milliseconds) and table of
  pending timers (handle, time due), the two variables \<open>isScrolling\<close> and
  \<open>scrollTimeout\<close> of the closure of \<^verbatim>\<open>createSectionObserver\<close>, and the targets and the
  root margin of its \<^verbatim>\<open>IntersectionObserver\<close>. Two logs record effects that leave the
  scripts: \<open>calls\<close> the arguments \<^verbatim>\<open>onSectionChange\<close> was invoked with, \<open>scrollLog\<close> the
  \<^verbatim>\<open>window.scrollTo\<close> requests (newest last).

  The only timers in the table are those \<^verbatim>\<open>setScrolling\<close> has set, whose callback is
  \<^verbatim>\<open>isScrolling = false\<close>. Handles are handed out in increasing order, as browsers do.
\<close>

record scrollCmd =
  top :: int
  smooth :: bool

record page =
  doc :: document
  clock :: nat
  timers :: "(nat \<times> nat) list"
  nextTimer :: nat
  isScrolling :: bool
  scrollTimeout :: "nat option"
  observed :: "node list"
  rootMargin :: string
  calls :: "string option list"
  scrollLog :: "scrollCmd list"

definition newPage :: "document \<Rightarrow> page" where
  "newPage d = \<lparr>doc = d, clock = 0, timers = [], nextTimer = 1, isScrolling = False,
                scrollTimeout = None, observed = [], rootMargin = [], calls = [],
                scrollLog = []\<rparr>"

text \<open>
  The delay of \<^verbatim>\<open>setTimeout\<close> is a 32-bit signed integer: the host reduces the number
  it is given modulo \<open>2^32\<close> into the range from \<open>-2^31\<close> to \<open>2^31 - 1\<close> and takes a
  negative delay as zero. (The scripts set their timers from event handlers, not from
  timers, so the host's minimum delay for nested timers does not apply.)
\<close>

definition timerDelay :: "int \<Rightarrow> nat" where
  "timerDelay d = (let w = d mod 4294967296 in if w < 2147483648 then nat w else 0)"

definition setTimeout :: "int \<Rightarrow> page \<Rightarrow> nat \<times> page" where
  "setTimeout delay s =
     (nextTimer s,
      s\<lparr>timers := timers s @ [(nextTimer s, clock s + timerDelay delay)],
        nextTimer := Suc (nextTimer s)\<rparr>)"

text \<open>\<^verbatim>\<open>clearTimeout(undefined)\<close> does nothing.\<close>

definition clearTimeout :: "nat option \<Rightarrow> page \<Rightarrow> page" where
  "clearTimeout h s =
     (case h of None \<Rightarrow> s
      | Some i \<Rightarrow> s\<lparr>timers := filter (\<lambda>t. fst t \<noteq> i) (timers s)\<rparr>)"

text \<open>
  The host runs the callback of timer \<open>h\<close>: only a pending timer that is due can
  fire, and it leaves the table when it does. The callback is \<^verbatim>\<open>isScrolling = false\<close>.
\<close>

definition timerFires :: "nat \<Rightarrow> page \<Rightarrow> page" where
  "timerFires h s =
     (case map_of (timers s) h of
        None \<Rightarrow> s
      | Some due \<Rightarrow>
          if due \<le> clock s
          then s\<lparr>timers := filter (\<lambda>t. fst t \<noteq> h) (timers s), isScrolling := False\<rparr>
          else s)"

section \<open>createSectionObserver\<close>

text \<open>
  What a caller can put into the list \<open>sections\<close>: an element of the document, or a
  value that is no element (\<^verbatim>\<open>null\<close>, a string), on which \<^verbatim>\<open>observe\<close> throws.
\<close>

datatype item = Element node | NotElement

type_synonym callback = "string option \<Rightarrow> document \<Rightarrow> document result"

record options =
  sections :: "item list option"
  navLinks :: "item list option"
  offset :: "int option"
  onSectionChange :: "callback option"
  disableDuringScroll :: "bool option"

record entry =
  isIntersecting :: bool
  target :: node

text \<open>
  The margin \<^verbatim>\<open>`-${offset}px 0px -66% 0px`\<close>, and the check the constructor of
  \<^verbatim>\<open>IntersectionObserver\<close> makes of it: one to four lengths, separated by spaces, each
  an optionally signed number with the unit \<^verbatim>\<open>px\<close> or \<^verbatim>\<open>%\<close>. (Of numbers, the integers:
  those are what the script pastes for an integer offset.)
\<close>

definition rootMarginOf :: "int \<Rightarrow> string" where
  "rootMarginOf off = ''-'' @ numberToString off @ ''px 0px -66% 0px''"

definition isDigit :: "char \<Rightarrow> bool" where
  "isDigit c = (c \<in> set ''0123456789'')"

fun splitSpaces :: "string \<Rightarrow> string list" where
  "splitSpaces [] = [[]]"
| "splitSpaces (c # cs) =
     (if c = CHR '' '' then [] # splitSpaces cs
      else (case splitSpaces cs of w # ws \<Rightarrow> (c # w) # ws | [] \<Rightarrow> [[c]]))"

definition validLength :: "string \<Rightarrow> bool" where
  "validLength tok =
     (let body = (case tok of
                    [] \<Rightarrow> []
                  | c # cs \<Rightarrow> if c = CHR ''-'' \<or> c = CHR ''+'' then cs else tok)
      in takeWhile isDigit body \<noteq> [] \<and>
         (dropWhile isDigit body = ''px'' \<or> dropWhile isDigit body = ''%''))"

definition validRootMargin :: "string \<Rightarrow> bool" where
  "validRootMargin m =
     (let toks = filter (\<lambda>w. w \<noteq> []) (splitSpaces m)
      in 1 \<le> length toks \<and> length toks \<le> 4 \<and> list_all validLength toks)"

definition disableDuringScrollOf :: "options \<Rightarrow> bool" where
  "disableDuringScrollOf opts = (case disableDuringScroll opts of None \<Rightarrow> True | Some b \<Rightarrow> b)"

text \<open>
  \<^verbatim>\<open>if (onSectionChange) onSectionChange(id)\<close>. A callback that throws has been invoked and
  may have changed the document.
\<close>

definition invoke :: "options \<Rightarrow> string option \<Rightarrow> page \<Rightarrow> page result" where
  "invoke opts i s =
     (case onSectionChange opts of
        None \<Rightarrow> Inr s
      | Some f \<Rightarrow>
          (case f i (doc s) of
             Inl (e, d') \<Rightarrow> Inl (e, s\<lparr>doc := d', calls := calls s @ [i]\<rparr>)
           | Inr d' \<Rightarrow> Inr (s\<lparr>doc := d', calls := calls s @ [i]\<rparr>)))"

text \<open>\<^verbatim>\<open>entries.forEach\<close>: an exception ends the loop.\<close>

fun forEachEntry :: "options \<Rightarrow> entry list \<Rightarrow> page \<Rightarrow> page result" where
  "forEachEntry opts [] s = Inr s"
| "forEachEntry opts (e # es) s =
     (if isIntersecting e
      then (case invoke opts (getAttribute_id (doc s) (target e)) s of
              Inl x \<Rightarrow> Inl x
            | Inr s' \<Rightarrow> forEachEntry opts es s')
      else forEachEntry opts es s)"

text \<open>The callback handed to \<^verbatim>\<open>new IntersectionObserver\<close>.\<close>

definition observerCallback :: "options \<Rightarrow> entry list \<Rightarrow> page \<Rightarrow> page result" where
  "observerCallback opts entries s =
     (if disableDuringScrollOf opts \<and> isScrolling s then Inr s
      else forEachEntry opts entries s)"

text \<open>
  \<^verbatim>\<open>observer.observe(section)\<close>: a target already watched is not added again, and a value
  that is no element throws a \<^verbatim>\<open>TypeError\<close>.
\<close>

definition observe :: "item \<Rightarrow> page \<Rightarrow> page result" where
  "observe x s =
     (case x of
        NotElement \<Rightarrow> Inl (TypeError, s)
      | Element n \<Rightarrow> Inr (if n \<in> set (observed s) then s else s\<lparr>observed := observed s @ [n]\<rparr>))"

fun observeAll :: "item list \<Rightarrow> page \<Rightarrow> page result" where
  "observeAll [] s = Inr s"
| "observeAll (x # xs) s =
     (case observe x s of Inl err \<Rightarrow> Inl err | Inr s' \<Rightarrow> observeAll xs s')"

text \<open>
  \<^verbatim>\<open>createSectionObserver(options)\<close>: the closure starts with \<open>isScrolling = false\<close> and
  \<open>scrollTimeout\<close> undefined; the observer is constructed with the margin pasted from
  \<open>offset\<close> (120 by default), which throws a \<^verbatim>\<open>SyntaxError\<close> when the margin does not
  parse (no observer exists then); then every section is observed, where
  \<^verbatim>\<open>sections.forEach\<close> throws a \<^verbatim>\<open>TypeError\<close> on an absent \<open>sections\<close>. There is no other
  check.
\<close>

definition createSectionObserver :: "options \<Rightarrow> page \<Rightarrow> page result" where
  "createSectionObserver opts s =
     (let off = (case offset opts of None \<Rightarrow> 120 | Some x \<Rightarrow> x);
          s1 = s\<lparr>isScrolling := False, scrollTimeout := None\<rparr>
      in if \<not> validRootMargin (rootMarginOf off) then Inl (SyntaxError, s)
         else (let s2 = s1\<lparr>observed := [], rootMargin := rootMarginOf off\<rparr>
               in case sections opts of
                    None \<Rightarrow> Inl (TypeError, s2)
                  | Some secs \<Rightarrow> observeAll secs s2))"

text \<open>\<^verbatim>\<open>setScrolling(state, duration = 1000)\<close>\<close>

definition setScrolling :: "bool \<Rightarrow> int option \<Rightarrow> page \<Rightarrow> page" where
  "setScrolling state duration s =
     (let d = (case duration of None \<Rightarrow> 1000 | Some d \<Rightarrow> d);
          s1 = s\<lparr>isScrolling := state\<rparr>;
          s2 = clearTimeout (scrollTimeout s1) s1
      in if state
         then (case setTimeout d s2 of (h, s3) \<Rightarrow> s3\<lparr>scrollTimeout := Some h\<rparr>)
         else s2)"

section \<open>initDocsObserver\<close>

record docsObserverOptions =
  sectionSelector :: "string option"
  sidebarSelector :: "string option"
  observerOffset :: "int option"
  activeClass :: "string option"

text \<open>
  The default selectors \<^verbatim>\<open>section[id]\<close> and \<^verbatim>\<open>aside a[href^="#"]\<close> (the character
  \<open>0x22\<close> is the double quote), and the selector
  \<^verbatim>\<open>`${sidebarSelector}[href="#${sectionId}"]`\<close>, pasted as the script does.
\<close>

definition sectionSelectorDefault :: string where
  "sectionSelectorDefault = ''section[id]''"

definition sidebarSelectorDefault :: string where
  "sidebarSelectorDefault = ''aside a[href^='' @ [CHR 0x22] @ ''#'' @ [CHR 0x22] @ '']''"

definition linkSelector :: "string \<Rightarrow> string \<Rightarrow> string" where
  "linkSelector sidebarSel sectionId =
     sidebarSel @ ''[href='' @ [CHR 0x22] @ ''#'' @ sectionId @ [CHR 0x22] @ '']''"

text \<open>
  The closure \<^verbatim>\<open>onSectionChange\<close> of \<^verbatim>\<open>initDocsObserver\<close>, with the variables it
  captures (\<open>sidebarSelector\<close>, \<open>activeClass\<close>, \<open>navLinks\<close>) as parameters. When
  \<^verbatim>\<open>querySelector\<close> throws, the marks have been removed already.
\<close>

definition docsOnSectionChange ::
  "engine \<Rightarrow> string \<Rightarrow> string \<Rightarrow> node list \<Rightarrow> callback" where
  "docsOnSectionChange css sidebarSel activeCls links sectionId d =
     (case removeFromAll activeCls links d of
        Inl err \<Rightarrow> Inl err
      | Inr d1 \<Rightarrow>
          (case querySelector css d1 (linkSelector sidebarSel (templateString sectionId)) of
             Inl e \<Rightarrow> Inl (e, d1)
           | Inr None \<Rightarrow> Inr d1
           | Inr (Some activeLink) \<Rightarrow>
               (case tokenError activeCls of
                  Some e \<Rightarrow> Inl (e, d1)
                | None \<Rightarrow> Inr (classList_add activeCls activeLink d1))))"

text \<open>
  The options \<^verbatim>\<open>initDocsObserver\<close> hands to \<^verbatim>\<open>createSectionObserver\<close>; the two
  \<^verbatim>\<open>querySelectorAll\<close> throw on a selector the engine rejects.
\<close>

definition docsObserverSetup :: "engine \<Rightarrow> docsObserverOptions \<Rightarrow> document \<Rightarrow> error + options" where
  "docsObserverSetup css opt d =
     (let sectionSel = (case sectionSelector opt of None \<Rightarrow> sectionSelectorDefault | Some x \<Rightarrow> x);
          sidebarSel = (case sidebarSelector opt of None \<Rightarrow> sidebarSelectorDefault | Some x \<Rightarrow> x);
          off = (case observerOffset opt of None \<Rightarrow> 120 | Some x \<Rightarrow> x);
          activeCls = (case activeClass opt of None \<Rightarrow> ''active'' | Some x \<Rightarrow> x)
      in case querySelectorAll css d sectionSel of
           Inl e \<Rightarrow> Inl e
         | Inr secs \<Rightarrow>
             (case querySelectorAll css d sidebarSel of
                Inl e \<Rightarrow> Inl e
              | Inr links \<Rightarrow>
                  Inr \<lparr>sections = Some (map Element secs), navLinks = Some (map Element links),
                       offset = Some off,
                       onSectionChange = Some (docsOnSectionChange css sidebarSel activeCls links),
                       disableDuringScroll = None\<rparr>))"

definition initDocsObserver :: "engine \<Rightarrow> docsObserverOptions \<Rightarrow> page \<Rightarrow> page result" where
  "initDocsObserver css opt s =
     (case docsObserverSetup css opt (doc s) of
        Inl e \<Rightarrow> Inl (e, s)
      | Inr opts \<Rightarrow> createSectionObserver opts s)"

section \<open>initDocsNav\<close>

text \<open>
  Of \<^verbatim>\<open>HtmxRScroll\<close>, \<^verbatim>\<open>initDocsNav\<close> with its closure \<^verbatim>\<open>setActiveLink\<close> and its click
  listener. The helper \<^verbatim>\<open>getNavbarHeight\<close> and the utility \<^verbatim>\<open>scrollTo\<close> touch neither the
  class lists nor the observer and are left out.
\<close>

record docsNavOptions =
  navSidebarSelector :: "string option"
  navSectionSelector :: "string option"
  stickyOffset :: "int option"
  navActiveClass :: "string option"

text \<open>What the closures of \<^verbatim>\<open>initDocsNav\<close> capture.\<close>

record docsNav =
  linksOf :: "node list"
  sidebarOf :: string
  stickyOf :: int
  activeOf :: string

definition initDocsNav :: "engine \<Rightarrow> docsNavOptions \<Rightarrow> document \<Rightarrow> error + docsNav" where
  "initDocsNav css opt d =
     (let sidebarSel = (case navSidebarSelector opt of None \<Rightarrow> sidebarSelectorDefault | Some x \<Rightarrow> x);
          sectionSel = (case navSectionSelector opt of None \<Rightarrow> sectionSelectorDefault | Some x \<Rightarrow> x)
      in case querySelectorAll css d sectionSel of
           Inl e \<Rightarrow> Inl e
         | Inr secs \<Rightarrow>
             (case querySelectorAll css d sidebarSel of
                Inl e \<Rightarrow> Inl e
              | Inr links \<Rightarrow>
                  Inr \<lparr>linksOf = links,
                       sidebarOf = sidebarSel,
                       stickyOf = (case stickyOffset opt of None \<Rightarrow> 120 | Some x \<Rightarrow> x),
                       activeOf = (case navActiveClass opt of None \<Rightarrow> ''active'' | Some x \<Rightarrow> x)\<rparr>))"

definition setActiveLink :: "engine \<Rightarrow> docsNav \<Rightarrow> string \<Rightarrow> document \<Rightarrow> document result" where
  "setActiveLink css nav sectionId d =
     (case removeFromAll (activeOf nav) (linksOf nav) d of
        Inl err \<Rightarrow> Inl err
      | Inr d1 \<Rightarrow>
          (case querySelector css d1 (linkSelector (sidebarOf nav) sectionId) of
             Inl e \<Rightarrow> Inl (e, d1)
           | Inr None \<Rightarrow> Inr d1
           | Inr (Some activeLink) \<Rightarrow>
               (case tokenError (activeOf nav) of
                  Some e \<Rightarrow> Inl (e, d1)
                | None \<Rightarrow> Inr (classList_add (activeOf nav) activeLink d1))))"

text \<open>
  The click listener of a navigation link \<open>link\<close>. \<^verbatim>\<open>getAttribute('href')\<close> of a link
  without the attribute is \<^verbatim>\<open>null\<close>, and \<^verbatim>\<open>.substring\<close> of it throws. When
  \<^verbatim>\<open>setActiveLink\<close> throws, no scroll is requested. The scroll target
  \<^verbatim>\<open>getBoundingClientRect().top + window.pageYOffset\<close> is the element's distance from
  the top of the document, \<open>docTop\<close>.
\<close>

definition clickHandler :: "engine \<Rightarrow> docsNav \<Rightarrow> node \<Rightarrow> page \<Rightarrow> page result" where
  "clickHandler css nav link s =
     (case (if link < length (doc s) then hrefAttr (doc s ! link) else None) of
        None \<Rightarrow> Inl (TypeError, s)
      | Some h \<Rightarrow>
          (let targetId = drop 1 h
           in case getElementById (doc s) targetId of
                None \<Rightarrow> Inr s
              | Some targetSection \<Rightarrow>
                  (case setActiveLink css nav targetId (doc s) of
                     Inl (e, d') \<Rightarrow> Inl (e, s\<lparr>doc := d'\<rparr>)
                   | Inr d' \<Rightarrow>
                       Inr (s\<lparr>doc := d',
                              scrollLog := scrollLog s @
                                [\<lparr>top = docTop (d' ! targetSection) - stickyOf nav,
                                  smooth = True\<rparr>]\<rparr>))))"

section \<open>The host's events\<close>

text \<open>
  The host delivers, one at a time: a batch of intersection entries (only for targets
  the observer watches), a call of \<^verbatim>\<open>setScrolling\<close> by the page, the expiry of a
  timer, the passing of time, and a click on a node. A click runs the listener when
  the page has called \<^verbatim>\<open>initDocsNav\<close> and the node is one of its links. An exception in
  a callback or a listener ends it, is reported by the host, and leaves the page as
  it is at that point.
\<close>

datatype event =
    Batch "entry list"
  | SetScrolling bool "int option"
  | TimerFires nat
  | Tick nat
  | Click node

record env =
  engineOf :: engine
  observerOptions :: options
  docsNavOf :: "docsNav option"

fun step :: "env \<Rightarrow> event \<Rightarrow> page \<Rightarrow> page" where
  "step env (Batch es) s =
     after (observerCallback (observerOptions env)
       (filter (\<lambda>e. target e \<in> set (observed s)) es) s)"
| "step env (SetScrolling state duration) s = setScrolling state duration s"
| "step env (TimerFires h) s = timerFires h s"
| "step env (Tick dt) s = s\<lparr>clock := clock s + dt\<rparr>"
| "step env (Click n) s =
     (case docsNavOf env of
        None \<Rightarrow> s
      | Some nav \<Rightarrow>
          if n \<in> set (linksOf nav) then after (clickHandler (engineOf env) nav n s) else s)"

definition run :: "env \<Rightarrow> event list \<Rightarrow> page \<Rightarrow> page" where
  "run env evs s = fold (step env) evs s"

text \<open>
  The timer table holds at most the one timer \<open>scrollTimeout\<close> names.
\<close>

definition timersOk :: "page \<Rightarrow> bool" where
  "timersOk s =
     (case timers s of
        [] \<Rightarrow> True
      | [t] \<Rightarrow> scrollTimeout s = Some (fst t)
      | _ \<Rightarrow> False)"

section \<open>Auxiliary notions\<close>





text \<open>The time that passes during a sequence of events.\<close>

fun elapsed :: "event list \<Rightarrow> nat" where
  "elapsed [] = 0"
| "elapsed (Tick dt # evs) = dt + elapsed evs"
| "elapsed (e # evs) = elapsed evs"

text \<open>
  The duration \<^verbatim>\<open>setScrolling\<close> hands to \<^verbatim>\<open>setTimeout\<close> (the default is 1000 ms), and
  the offset \<^verbatim>\<open>createSectionObserver\<close> pastes into the margin (the default is 120).
\<close>

definition offsetOf :: "options \<Rightarrow> int" where
  "offsetOf opts = (case offset opts of None \<Rightarrow> 120 | Some x \<Rightarrow> x)"

definition durationOf :: "int option \<Rightarrow> int" where
  "durationOf duration = (case duration of None \<Rightarrow> 1000 | Some d \<Rightarrow> d)"

text \<open>
  A handle that has been given out and is no longer in the table, and a table whose
  handles have all been given out.
\<close>

definition retired :: "nat \<Rightarrow> page \<Rightarrow> bool" where
  "retired h s = (h < nextTimer s \<and> h \<notin> fst ` set (timers s))"

definition handlesFresh :: "page \<Rightarrow> bool" where
  "handlesFresh s = (\<forall>t\<in>set (timers s). fst t < nextTimer s)"

text \<open>
  The links of a list that carry the active class, and the statement that they are at
  most one element.
\<close>

definition markedLinks :: "string \<Rightarrow> node list \<Rightarrow> document \<Rightarrow> node list" where
  "markedLinks activeCls links d =
     filter (\<lambda>n. n < length d \<and> activeCls \<in> set (classList (d ! n))) links"


text \<open>
  Two documents that differ in class lists only, and a selector that does not look at
  class lists, as \<^verbatim>\<open>aside a[href^="#"]\<close> does not.
\<close>

definition sameButClasses :: "document \<Rightarrow> document \<Rightarrow> bool" where
  "sameButClasses d d' = (map (\<lambda>e. e\<lparr>classList := []\<rparr>) d = map (\<lambda>e. e\<lparr>classList := []\<rparr>) d')"



text \<open>No two neighbours of a list are equal.\<close>

fun noRepeat :: "'a list \<Rightarrow> bool" where
  "noRepeat (x # y # zs) = (x \<noteq> y \<and> noRepeat (y # zs))"
| "noRepeat zs = True"

text \<open>
  What a batch is meant to do to the document and the callback log, entry by entry:
  for an intersecting entry, the callback is applied to the id the target has at that
  moment and the id is logged; once a callback has thrown, nothing more happens.
\<close>

definition entryEffect ::
  "callback \<Rightarrow> entry \<Rightarrow> error option \<times> document \<times> string option list \<Rightarrow>
   error option \<times> document \<times> string option list" where
  "entryEffect f e acc =
     (case acc of (x, d, log) \<Rightarrow>
        if x \<noteq> None \<or> \<not> isIntersecting e then acc
        else (case f (getAttribute_id d (target e)) d of
                Inl (err, d') \<Rightarrow> (Some err, d', log @ [getAttribute_id d (target e)])
              | Inr d' \<Rightarrow> (None, d', log @ [getAttribute_id d (target e)])))"

definition batchEffect :: "callback \<Rightarrow> entry list \<Rightarrow> page \<Rightarrow> page result" where
  "batchEffect f es s =
     (case fold (entryEffect f) es (None, doc s, calls s) of
        (None, d', log) \<Rightarrow> Inr (s\<lparr>doc := d', calls := log\<rparr>)
      | (Some err, d', log) \<Rightarrow> Inl (err, s\<lparr>doc := d', calls := log\<rparr>))"

section \<open>An example page\<close>

text \<open>
  A selector engine that knows the selectors of the default configuration,
  \<^verbatim>\<open>section[id]\<close>, \<^verbatim>\<open>aside a[href^="#"]\<close> and the latter with \<^verbatim>\<open>[href="#x"]\<close> pasted on for
  an \<open>x\<close> without quote, backslash or line break, and rejects every other string. It
  serves the examples; the theorems are about every engine.
\<close>

definition cssSafe :: "string \<Rightarrow> bool" where
  "cssSafe x = (\<not> list_ex (\<lambda>c. c \<in> set [CHR 0x22, CHR 0x5C, CHR 0x0A, CHR 0x0C, CHR 0x0D]) x)"

definition isSection :: selector where
  "isSection d n = (tag (d ! n) = ''section'' \<and> idAttr (d ! n) \<noteq> None)"

definition isSidebarLink :: selector where
  "isSidebarLink d n =
     (tag (d ! n) = ''a'' \<and> inAside (d ! n) \<and>
      (case hrefAttr (d ! n) of None \<Rightarrow> False | Some h \<Rightarrow> take 1 h = ''#''))"

definition exampleEngine :: engine where
  "exampleEngine str =
     (if str = sectionSelectorDefault then Some isSection
      else if str = sidebarSelectorDefault then Some isSidebarLink
      else (let pre = sidebarSelectorDefault @ ''[href='' @ [CHR 0x22] @ ''#'';
                rest = drop (length pre) str;
                x = take (length rest - 2) rest
            in if take (length pre) str = pre \<and> 2 \<le> length rest \<and>
                  drop (length rest - 2) rest = [CHR 0x22] @ '']'' \<and> cssSafe x
               then Some (\<lambda>d n. isSidebarLink d n \<and> hrefAttr (d ! n) = Some (''#'' @ x))
               else None))"

text \<open>
  Three sidebar links and the three sections \<^verbatim>\<open>intro\<close>, \<^verbatim>\<open>usage\<close>, \<^verbatim>\<open>api\<close> they point
  to, set up with the defaults of \<^verbatim>\<open>initDocsObserver\<close> and \<^verbatim>\<open>initDocsNav\<close>; the same page
  with \<^verbatim>\<open>disableDuringScroll: false\<close>; entries for its sections; a page with a link to a
  section that does not exist; a page with two sections of one id; options whose
  callback throws; options with an empty list of sections.
\<close>

definition exampleDoc :: document where
  "exampleDoc =
     [\<lparr>tag = ''a'', inAside = True, idAttr = None, hrefAttr = Some ''#intro'', docTop = 10, classList = []\<rparr>,
      \<lparr>tag = ''a'', inAside = True, idAttr = None, hrefAttr = Some ''#usage'', docTop = 30, classList = []\<rparr>,
      \<lparr>tag = ''a'', inAside = True, idAttr = None, hrefAttr = Some ''#api'', docTop = 50, classList = []\<rparr>,
      \<lparr>tag = ''section'', inAside = False, idAttr = Some ''intro'', hrefAttr = None, docTop = 200, classList = []\<rparr>,
      \<lparr>tag = ''section'', inAside = False, idAttr = Some ''usage'', hrefAttr = None, docTop = 900, classList = []\<rparr>,
      \<lparr>tag = ''section'', inAside = False, idAttr = Some ''api'', hrefAttr = None, docTop = 1700, classList = []\<rparr>]"

definition docsDefaults :: docsObserverOptions where
  "docsDefaults = \<lparr>sectionSelector = None, sidebarSelector = None, observerOffset = None, activeClass = None\<rparr>"

definition navDefaults :: docsNavOptions where
  "navDefaults = \<lparr>navSidebarSelector = None, navSectionSelector = None, stickyOffset = None, navActiveClass = None\<rparr>"

definition exampleOptions :: options where
  "exampleOptions =
     \<lparr>sections = Some [Element 3, Element 4, Element 5],
      navLinks = Some [Element 0, Element 1, Element 2],
      offset = Some 120,
      onSectionChange = Some (docsOnSectionChange exampleEngine sidebarSelectorDefault ''active'' [0, 1, 2]),
      disableDuringScroll = None\<rparr>"

definition exampleNav :: docsNav where
  "exampleNav = \<lparr>linksOf = [0, 1, 2], sidebarOf = sidebarSelectorDefault, stickyOf = 120,
                  activeOf = ''active''\<rparr>"

definition exampleEnv :: env where
  "exampleEnv = \<lparr>engineOf = exampleEngine, observerOptions = exampleOptions,
                  docsNavOf = Some exampleNav\<rparr>"

definition exampleStart :: page where
  "exampleStart = (newPage exampleDoc)\<lparr>observed := [3, 4, 5], rootMargin := ''-120px 0px -66% 0px''\<rparr>"


definition usageIn :: entry where "usageIn = \<lparr>isIntersecting = True, target = 4\<rparr>"

definition usageOut :: entry where "usageOut = \<lparr>isIntersecting = False, target = 4\<rparr>"


definition exampleDocOrphan :: document where
  "exampleDocOrphan = exampleDoc @
     [\<lparr>tag = ''a'', inAside = True, idAttr = None, hrefAttr = Some ''#missing'', docTop = 70, classList = []\<rparr>]"

definition exampleNavOrphan :: docsNav where
  "exampleNavOrphan = \<lparr>linksOf = [0, 1, 2, 6], sidebarOf = sidebarSelectorDefault, stickyOf = 120,
                        activeOf = ''active''\<rparr>"

definition exampleDocDup :: document where
  "exampleDocDup =
     [\<lparr>tag = ''section'', inAside = False, idAttr = Some ''intro'', hrefAttr = None, docTop = 200, classList = []\<rparr>,
      \<lparr>tag = ''section'', inAside = False, idAttr = Some ''intro'', hrefAttr = None, docTop = 900, classList = []\<rparr>]"


definition emptyOptions :: options where
  "emptyOptions = \<lparr>sections = Some [], navLinks = Some [], offset = None, onSectionChange = None,
                    disableDuringScroll = None\<rparr>"

section \<open>Properties of the model\<close>

lemma after_simps [simp]: "after (Inr x) = x" "after (Inl (e, x)) = x"
  by (simp_all add: after_def)

lemma observeAll_fields:
  "timers (after (observeAll xs s)) = timers s"
  "scrollTimeout (after (observeAll xs s)) = scrollTimeout s"
  "isScrolling (after (observeAll xs s)) = isScrolling s"
  "nextTimer (after (observeAll xs s)) = nextTimer s"
  "clock (after (observeAll xs s)) = clock s"
  "doc (after (observeAll xs s)) = doc s"
  "calls (after (observeAll xs s)) = calls s"
  "scrollLog (after (observeAll xs s)) = scrollLog s"
  "rootMargin (after (observeAll xs s)) = rootMargin s"
  by (induction xs arbitrary: s; simp add: observe_def split: item.splits)+

lemma invoke_frame: "\<exists>d' c'. after (invoke opts i s) = s\<lparr>doc := d', calls := c'\<rparr>"
proof (cases "onSectionChange opts")
  case None
  then have "after (invoke opts i s) = s\<lparr>doc := doc s, calls := calls s\<rparr>"
    by (simp add: invoke_def)
  then show ?thesis by blast
next
  case (Some f)
  then have "after (invoke opts i s) = s\<lparr>doc := after (f i (doc s)), calls := calls s @ [i]\<rparr>"
    by (auto simp: invoke_def split: sum.splits)
  then show ?thesis by blast
qed

lemma forEachEntry_frame: "\<exists>d' c'. after (forEachEntry opts es s) = s\<lparr>doc := d', calls := c'\<rparr>"
proof (induction es arbitrary: s)
  case Nil
  have "after (forEachEntry opts [] s) = s\<lparr>doc := doc s, calls := calls s\<rparr>" by simp
  then show ?case by blast
next
  case (Cons e es)
  show ?case
  proof (cases "isIntersecting e")
    case False
    then show ?thesis using Cons.IH[of s] by simp
  next
    case True
    let ?r = "invoke opts (getAttribute_id (doc s) (target e)) s"
    from invoke_frame obtain d1 c1 where f1: "after ?r = s\<lparr>doc := d1, calls := c1\<rparr>" by blast
    show ?thesis
    proof (cases ?r)
      case (Inl x)
      then have "after (forEachEntry opts (e # es) s) = after ?r" using True by simp
      then show ?thesis using f1 by auto
    next
      case (Inr s')
      then have s': "s' = s\<lparr>doc := d1, calls := c1\<rparr>" using f1 by simp
      from Cons.IH[of s'] obtain d2 c2 where
        "after (forEachEntry opts es s') = s'\<lparr>doc := d2, calls := c2\<rparr>" by blast
      then have "after (forEachEntry opts (e # es) s) = s\<lparr>doc := d2, calls := c2\<rparr>"
        using True Inr s' by simp
      then show ?thesis by blast
    qed
  qed
qed

lemma forEachEntry_fields:
  "timers (after (forEachEntry opts es s)) = timers s"
  "scrollTimeout (after (forEachEntry opts es s)) = scrollTimeout s"
  "isScrolling (after (forEachEntry opts es s)) = isScrolling s"
  "nextTimer (after (forEachEntry opts es s)) = nextTimer s"
  "clock (after (forEachEntry opts es s)) = clock s"
  "observed (after (forEachEntry opts es s)) = observed s"
  "scrollLog (after (forEachEntry opts es s)) = scrollLog s"
  "rootMargin (after (forEachEntry opts es s)) = rootMargin s"
  using forEachEntry_frame[of opts es s] by auto

lemma observerCallback_fields:
  "timers (after (observerCallback opts es s)) = timers s"
  "scrollTimeout (after (observerCallback opts es s)) = scrollTimeout s"
  "isScrolling (after (observerCallback opts es s)) = isScrolling s"
  "nextTimer (after (observerCallback opts es s)) = nextTimer s"
  "clock (after (observerCallback opts es s)) = clock s"
  "observed (after (observerCallback opts es s)) = observed s"
  "scrollLog (after (observerCallback opts es s)) = scrollLog s"
  "rootMargin (after (observerCallback opts es s)) = rootMargin s"
  by (simp_all add: observerCallback_def forEachEntry_fields)

lemma clickHandler_frame:
  "\<exists>d' l'. after (clickHandler css nav n s) = s\<lparr>doc := d', scrollLog := l'\<rparr>"
proof -
  have id: "s = s\<lparr>doc := doc s, scrollLog := scrollLog s\<rparr>" by simp
  have id2: "s\<lparr>doc := d'\<rparr> = s\<lparr>doc := d', scrollLog := scrollLog s\<rparr>" for d' by simp
  show ?thesis
    unfolding clickHandler_def Let_def
    by (auto split: option.splits sum.splits prod.splits intro: exI[of _ "doc s"] id id2)
qed

lemma click_fields:
  "timers (step env (Click n) s) = timers s"
  "scrollTimeout (step env (Click n) s) = scrollTimeout s"
  "isScrolling (step env (Click n) s) = isScrolling s"
  "nextTimer (step env (Click n) s) = nextTimer s"
  "clock (step env (Click n) s) = clock s"
  "observed (step env (Click n) s) = observed s"
  "calls (step env (Click n) s) = calls s"
  "rootMargin (step env (Click n) s) = rootMargin s"
proof -
  have "\<exists>d' l'. step env (Click n) s = s\<lparr>doc := d', scrollLog := l'\<rparr>"
  proof (cases "docsNavOf env")
    case None
    then have "step env (Click n) s = s\<lparr>doc := doc s, scrollLog := scrollLog s\<rparr>" by simp
    then show ?thesis by blast
  next
    case (Some nav)
    show ?thesis
    proof (cases "n \<in> set (linksOf nav)")
      case True
      then show ?thesis using Some clickHandler_frame[of "engineOf env" nav n s] by simp
    next
      case False
      then have "step env (Click n) s = s\<lparr>doc := doc s, scrollLog := scrollLog s\<rparr>"
        using Some by simp
      then show ?thesis by blast
    qed
  qed
  then obtain d' l' where e: "step env (Click n) s = s\<lparr>doc := d', scrollLog := l'\<rparr>" by blast
  show "timers (step env (Click n) s) = timers s"
    "scrollTimeout (step env (Click n) s) = scrollTimeout s"
    "isScrolling (step env (Click n) s) = isScrolling s"
    "nextTimer (step env (Click n) s) = nextTimer s"
    "clock (step env (Click n) s) = clock s"
    "observed (step env (Click n) s) = observed s"
    "calls (step env (Click n) s) = calls s"
    "rootMargin (step env (Click n) s) = rootMargin s"
    unfolding e by simp_all
qed



lemma timersOk_cases:
  "timersOk s \<longleftrightarrow> timers s = [] \<or> (\<exists>h due. timers s = [(h, due)] \<and> scrollTimeout s = Some h)"
  by (auto simp: timersOk_def split: list.splits)

lemma setScrolling_true_ok:
  "timersOk s \<Longrightarrow>
   setScrolling True dur s =
     s\<lparr>isScrolling := True,
       timers := [(nextTimer s, clock s + timerDelay (durationOf dur))],
       nextTimer := Suc (nextTimer s),
       scrollTimeout := Some (nextTimer s)\<rparr>"
  by (auto simp: timersOk_cases setScrolling_def clearTimeout_def setTimeout_def Let_def
      durationOf_def split: option.splits)

lemma setScrolling_false_ok:
  "timersOk s \<Longrightarrow> setScrolling False dur s = s\<lparr>isScrolling := False, timers := []\<rparr>"
  by (auto simp: timersOk_cases setScrolling_def clearTimeout_def Let_def split: option.splits)

lemma setScrolling_true_twice:
  "timersOk s \<Longrightarrow>
   setScrolling True d2 (setScrolling True d1 s) =
     s\<lparr>isScrolling := True,
       timers := [(Suc (nextTimer s), clock s + timerDelay (durationOf d2))],
       nextTimer := Suc (Suc (nextTimer s)),
       scrollTimeout := Some (Suc (nextTimer s))\<rparr>"
  by (auto simp: timersOk_cases setScrolling_def clearTimeout_def setTimeout_def Let_def
      durationOf_def split: option.splits)

lemma timersOk_step: "timersOk s \<Longrightarrow> timersOk (step env e s)"
proof (cases e)
  case (Batch es)
  assume "timersOk s"
  then show ?thesis using Batch by (simp add: timersOk_cases observerCallback_fields)
next
  case (SetScrolling b dur)
  assume ok: "timersOk s"
  show ?thesis
  proof (cases b)
    case True
    then show ?thesis using SetScrolling ok
      by (simp add: setScrolling_true_ok) (simp add: timersOk_cases)
  next
    case False
    then show ?thesis using SetScrolling ok
      by (simp add: setScrolling_false_ok) (simp add: timersOk_cases)
  qed
next
  case (TimerFires h)
  assume "timersOk s"
  then show ?thesis using TimerFires
    by (auto simp: timersOk_cases timerFires_def split: option.splits if_splits)
next
  case (Tick dt)
  assume "timersOk s"
  then show ?thesis using Tick by (simp add: timersOk_cases)
next
  case (Click n)
  assume "timersOk s"
  then show ?thesis using Click by (simp only: timersOk_cases click_fields)
qed

lemma timersOk_run: "timersOk s \<Longrightarrow> timersOk (run env evs s)"
  unfolding run_def by (induction evs arbitrary: s) (simp_all add: timersOk_step)

lemma create_Inr:
  assumes "createSectionObserver opts s = Inr s0"
  shows "\<exists>secs. sections opts = Some secs \<and>
           observeAll secs (s\<lparr>isScrolling := False, scrollTimeout := None, observed := [],
                         rootMargin := rootMarginOf (case offset opts of None \<Rightarrow> 120 | Some x \<Rightarrow> x)\<rparr>)
             = Inr s0 \<and>
           s0 = after (observeAll secs (s\<lparr>isScrolling := False, scrollTimeout := None, observed := [],
                         rootMargin := rootMarginOf (case offset opts of None \<Rightarrow> 120 | Some x \<Rightarrow> x)\<rparr>))"
  using assms by (auto simp: createSectionObserver_def Let_def split: if_splits option.splits)

lemma timersOk_create:
  "createSectionObserver opts (newPage d) = Inr s0 \<Longrightarrow> timersOk s0"
  by (drule create_Inr) (auto simp: timersOk_cases observeAll_fields newPage_def)



lemma retired_step: "retired h s \<Longrightarrow> retired h (step env e s)"
proof (cases e)
  case (Click n)
  assume "retired h s"
  then show ?thesis using Click unfolding retired_def by (simp only: click_fields) simp
next
  case (SetScrolling b dur)
  assume "retired h s"
  then show ?thesis using SetScrolling
    by (cases b) (auto simp: retired_def setScrolling_def clearTimeout_def setTimeout_def Let_def split: option.splits)
next
  case (TimerFires k)
  assume "retired h s"
  then show ?thesis using TimerFires
    by (auto simp: retired_def timerFires_def split: option.splits)
qed (simp_all add: retired_def observerCallback_fields)

lemma retired_run: "retired h s \<Longrightarrow> retired h (run env evs s)"
  unfolding run_def by (induction evs arbitrary: s) (simp_all add: retired_step)

lemma retired_never_fires: "retired h s \<Longrightarrow> timerFires h s = s"
proof -
  assume "retired h s"
  then have "map_of (timers s) h = None" by (simp add: retired_def map_of_eq_None_iff)
  then show ?thesis by (simp add: timerFires_def)
qed

lemma handlesFresh_step: "handlesFresh s \<Longrightarrow> handlesFresh (step env e s)"
proof (cases e)
  case (Click n)
  assume "handlesFresh s"
  then show ?thesis using Click unfolding handlesFresh_def by (simp only: click_fields)
next
  case (SetScrolling b dur)
  assume "handlesFresh s"
  then show ?thesis using SetScrolling
    by (cases b) (auto simp: handlesFresh_def setScrolling_def clearTimeout_def setTimeout_def Let_def less_Suc_eq split: option.splits)
next
  case (TimerFires k)
  assume "handlesFresh s"
  then show ?thesis using TimerFires
    by (auto simp: handlesFresh_def timerFires_def split: option.splits)
qed (simp_all add: handlesFresh_def observerCallback_fields)

lemma handlesFresh_run: "handlesFresh s \<Longrightarrow> handlesFresh (run env evs s)"
  unfolding run_def by (induction evs arbitrary: s) (simp_all add: handlesFresh_step)

lemma handlesFresh_create:
  "createSectionObserver opts (newPage d) = Inr s0 \<Longrightarrow> handlesFresh s0"
  by (drule create_Inr) (auto simp: handlesFresh_def observeAll_fields newPage_def)

lemma elapsed_Cons: "elapsed (e # evs) = elapsed [e] + elapsed evs"
  by (cases e) simp_all

lemma elapsed_append: "elapsed (xs @ ys) = elapsed xs + elapsed ys"
proof (induction xs)
  case Nil
  then show ?case by simp
next
  case (Cons e xs)
  then show ?case using elapsed_Cons[of e "xs @ ys"] elapsed_Cons[of e xs] by simp
qed





lemma length_classList_remove [simp]: "length (classList_remove c n d) = length d"
  by (simp add: classList_remove_def)

lemma length_classList_add [simp]: "length (classList_add c n d) = length d"
  by (simp add: classList_add_def)

lemma length_fold_remove [simp]: "length (fold (classList_remove c) ns d) = length d"
  by (induction ns arbitrary: d) simp_all

lemma nth_classList_remove:
  "m < length d \<Longrightarrow>
   classList_remove c n d ! m =
     (if m = n then (d ! m)\<lparr>classList := filter (\<lambda>x. x \<noteq> c) (classList (d ! m))\<rparr> else d ! m)"
  by (simp add: classList_remove_def nth_list_update)

lemma nth_classList_add:
  "m < length d \<Longrightarrow>
   classList_add c n d ! m =
     (if m = n
      then (d ! m)\<lparr>classList := (if c \<in> set (classList (d ! m)) then classList (d ! m)
                                  else classList (d ! m) @ [c])\<rparr>
      else d ! m)"
  by (simp add: classList_add_def nth_list_update)

lemma nth_fold_remove:
  "m < length d \<Longrightarrow>
   fold (classList_remove c) ns d ! m =
     (if m \<in> set ns then (d ! m)\<lparr>classList := filter (\<lambda>x. x \<noteq> c) (classList (d ! m))\<rparr>
      else d ! m)"
proof (induction ns arbitrary: d)
  case Nil
  then show ?case by simp
next
  case (Cons n ns)
  have "fold (classList_remove c) (n # ns) d ! m = fold (classList_remove c) ns (classList_remove c n d) ! m"
    by simp
  also have "\<dots> = (if m \<in> set ns
        then (classList_remove c n d ! m)\<lparr>classList := filter (\<lambda>x. x \<noteq> c) (classList (classList_remove c n d ! m))\<rparr>
        else classList_remove c n d ! m)"
    using Cons.prems by (intro Cons.IH) simp
  also have "\<dots> = (if m \<in> set (n # ns) then (d ! m)\<lparr>classList := filter (\<lambda>x. x \<noteq> c) (classList (d ! m))\<rparr>
      else d ! m)"
    using Cons.prems by (simp add: nth_classList_remove)
  finally show ?case .
qed

lemma sameButClasses_length: "sameButClasses d d' \<Longrightarrow> length d = length d'"
  unfolding sameButClasses_def by (rule map_eq_imp_length_eq)

lemma sameButClassesI:
  assumes "length d = length d'"
    and "\<And>n. n < length d \<Longrightarrow> (d ! n)\<lparr>classList := []\<rparr> = (d' ! n)\<lparr>classList := []\<rparr>"
  shows "sameButClasses d d'"
  unfolding sameButClasses_def by (rule nth_equalityI) (simp_all add: assms)

lemma sameButClasses_refl [simp]: "sameButClasses d d"
  by (simp add: sameButClasses_def)

lemma sameButClasses_trans: "sameButClasses d d' \<Longrightarrow> sameButClasses d' d'' \<Longrightarrow> sameButClasses d d''"
  by (simp add: sameButClasses_def)

lemma sameButClasses_fold_remove: "sameButClasses (fold (classList_remove c) ns d) d"
  by (rule sameButClassesI) (simp_all add: nth_fold_remove)

lemma sameButClasses_add: "sameButClasses (classList_add c r d) d"
  by (rule sameButClassesI) (simp_all add: nth_classList_add)







text \<open>The callback, case by case.\<close>

lemma change_valid_token:
  assumes "tokenError ac = None"
  shows "docsOnSectionChange css sel ac links i d =
     (case querySelector css (fold (classList_remove ac) links d) (linkSelector sel (templateString i)) of
        Inl e \<Rightarrow> Inl (e, fold (classList_remove ac) links d)
      | Inr None \<Rightarrow> Inr (fold (classList_remove ac) links d)
      | Inr (Some r) \<Rightarrow> Inr (classList_add ac r (fold (classList_remove ac) links d)))"
  using assms by (simp add: docsOnSectionChange_def removeFromAll_def split: sum.splits option.splits)

lemma change_invalid_token:
  assumes "tokenError ac = Some e"
  shows "after (docsOnSectionChange css sel ac links i d) = d"
  using assms
  by (auto simp: docsOnSectionChange_def removeFromAll_def split: sum.splits option.splits)

lemma change_sameButClasses: "sameButClasses (after (docsOnSectionChange css sel ac links i d)) d"
proof (cases "tokenError ac")
  case (Some e)
  then show ?thesis by (simp add: change_invalid_token)
next
  case None
  have "sameButClasses (classList_add ac r (fold (classList_remove ac) links d)) d" for r
    using sameButClasses_add sameButClasses_fold_remove by (rule sameButClasses_trans)
  then show ?thesis
    unfolding change_valid_token[OF None]
    by (auto simp: sameButClasses_fold_remove split: sum.splits option.splits)
qed

lemma length_change [simp]: "length (after (docsOnSectionChange css sel ac links i d)) = length d"
  using change_sameButClasses by (rule sameButClasses_length)






lemma entryEffect_stuck: "fold (entryEffect f) es (Some err, d, log) = (Some err, d, log)"
  by (induction es) (simp_all add: entryEffect_def)

lemma forEachEntry_batchEffect:
  assumes f: "onSectionChange opts = Some f"
  shows "forEachEntry opts es s = batchEffect f es s"
proof (induction es arbitrary: s)
  case Nil
  then show ?case by (simp add: batchEffect_def)
next
  case (Cons e es)
  show ?case
  proof (cases "isIntersecting e")
    case False
    then have "batchEffect f (e # es) s = batchEffect f es s"
      by (simp add: batchEffect_def entryEffect_def)
    then show ?thesis using False Cons.IH by simp
  next
    case True
    let ?i = "getAttribute_id (doc s) (target e)"
    show ?thesis
    proof (cases "f ?i (doc s)")
      case (Inl x)
      obtain err d' where x: "x = (err, d')" by (cases x)
      have "batchEffect f (e # es) s = Inl (err, s\<lparr>doc := d', calls := calls s @ [?i]\<rparr>)"
        using True Inl x by (simp add: batchEffect_def entryEffect_def entryEffect_stuck)
      moreover have "forEachEntry opts (e # es) s = Inl (err, s\<lparr>doc := d', calls := calls s @ [?i]\<rparr>)"
        using True Inl x f by (simp add: invoke_def)
      ultimately show ?thesis by simp
    next
      case (Inr d')
      let ?s' = "s\<lparr>doc := d', calls := calls s @ [?i]\<rparr>"
      have "forEachEntry opts (e # es) s = forEachEntry opts es ?s'"
        using True Inr f by (simp add: invoke_def)
      also have "\<dots> = batchEffect f es ?s'" by (rule Cons.IH)
      also have "\<dots> = batchEffect f (e # es) s"
        using True Inr by (simp add: batchEffect_def entryEffect_def split: prod.splits option.splits)
      finally show ?thesis .
    qed
  qed
qed

lemma forEachEntry_no_callback:
  "onSectionChange opts = None \<Longrightarrow> forEachEntry opts es s = Inr s"
  by (induction es arbitrary: s) (simp_all add: invoke_def)

lemma invoke_after:
  "onSectionChange opts = Some f \<Longrightarrow>
   after (invoke opts i s) = s\<lparr>doc := after (f i (doc s)), calls := calls s @ [i]\<rparr>"
  by (auto simp: invoke_def split: sum.splits)











lemma observeAll_Inr_iff: "(\<exists>s'. observeAll xs s = Inr s') \<longleftrightarrow> NotElement \<notin> set xs"
  by (induction xs arbitrary: s) (auto simp: observe_def split: item.splits)

lemma observeAll_set:
  "observeAll xs s = Inr s' \<Longrightarrow> set (observed s') = set (observed s) \<union> {n. Element n \<in> set xs}"
  by (induction xs arbitrary: s) (auto simp: observe_def split: item.splits if_splits)

lemma observeAll_distinct:
  "observeAll xs s = Inr s' \<Longrightarrow> distinct (observed s) \<Longrightarrow> distinct (observed s')"
  by (induction xs arbitrary: s) (auto simp: observe_def split: item.splits if_splits)

lemma digit_char: "k < 10 \<Longrightarrow> isDigit (''0123456789'' ! k)"
  unfolding isDigit_def by (rule nth_mem) simp

lemma digits_all: "\<forall>c\<in>set (digits n). isDigit c"
proof (induction n rule: digits.induct)
  case (1 n)
  show ?case
  proof (cases "n < 10")
    case True
    then show ?thesis by (subst digits.simps) (simp add: digit_char)
  next
    case False
    then have "\<forall>c\<in>set (digits (n div 10)). isDigit c" using "1" by simp
    then show ?thesis using False by (subst digits.simps) (simp add: digit_char)
  qed
qed

lemma digits_nonempty: "digits n \<noteq> []"
  by (subst digits.simps) simp

lemma isDigit_not_space: "isDigit c \<Longrightarrow> c \<noteq> CHR '' ''"
  by (auto simp: isDigit_def)

lemma isDigit_not_minus: "\<not> isDigit (CHR ''-'')" "\<not> isDigit (CHR ''p'')"
  by (simp_all add: isDigit_def)

lemma splitSpaces_nonempty: "splitSpaces xs \<noteq> []"
  by (induction xs) (auto split: list.splits)

lemma splitSpaces_word:
  "CHR '' '' \<notin> set a \<Longrightarrow> splitSpaces (a @ CHR '' '' # rest) = a # splitSpaces rest"
  by (induction a) (auto split: list.splits simp: splitSpaces_nonempty)

lemma margin_tail: "splitSpaces ''0px -66% 0px'' = [''0px'', ''-66%'', ''0px'']"
  by simp

lemma margin_tail_valid:
  "validLength ''0px''" "validLength ''-66%''"
  by (simp_all add: validLength_def isDigit_def)

lemma validLength_first:
  "validLength (CHR ''-'' # numberToString off @ ''px'') \<longleftrightarrow> 0 \<le> off"
proof (cases "off < 0")
  case True
  then have "takeWhile isDigit (numberToString off @ ''px'') = []"
    by (simp add: numberToString_def isDigit_not_minus)
  then show ?thesis using True by (simp add: validLength_def)
next
  case False
  let ?ds = "digits (nat off)"
  have n: "numberToString off = ?ds" using False by (simp add: numberToString_def)
  have tw: "takeWhile isDigit (?ds @ ''px'') = ?ds"
    using digits_all[of "nat off"] by (simp add: takeWhile_append2 isDigit_not_minus)
  have dw: "dropWhile isDigit (?ds @ ''px'') = ''px''"
    using digits_all[of "nat off"] by (simp add: dropWhile_append2 isDigit_not_minus)
  show ?thesis using False digits_nonempty[of "nat off"]
    by (simp add: validLength_def n tw dw)
qed

lemma numberToString_no_space: "CHR '' '' \<notin> set (numberToString off)"
  using digits_all isDigit_not_space by (auto simp: numberToString_def)

lemma validRootMargin_iff: "validRootMargin (rootMarginOf off) \<longleftrightarrow> 0 \<le> off"
proof -
  let ?w = "CHR ''-'' # numberToString off @ ''px''"
  have nosp: "CHR '' '' \<notin> set ?w" using numberToString_no_space[of off] by simp
  have "rootMarginOf off = ?w @ CHR '' '' # ''0px -66% 0px''"
    by (simp add: rootMarginOf_def)
  then have "splitSpaces (rootMarginOf off) = ?w # splitSpaces ''0px -66% 0px''"
    using splitSpaces_word[OF nosp] by simp
  then have sp: "splitSpaces (rootMarginOf off) = [?w, ''0px'', ''-66%'', ''0px'']"
    by (simp only: margin_tail)
  show ?thesis unfolding validRootMargin_def sp
    by (simp add: margin_tail_valid validLength_first)
qed

section \<open>Further lemmas, and the example page evaluated\<close>

lemma example_create:
  "createSectionObserver (observerOptions exampleEnv) (newPage exampleDoc) = Inr exampleStart"
  by code_simp

lemma example_disable: "disableDuringScrollOf (observerOptions exampleEnv)"
  by (simp add: exampleEnv_def exampleOptions_def disableDuringScrollOf_def)


lemma example_callback:
  "onSectionChange (observerOptions exampleEnv) =
     Some (docsOnSectionChange exampleEngine sidebarSelectorDefault ''active'' [0, 1, 2])"
  by (simp add: exampleEnv_def exampleOptions_def)

lemma ex_run1: "run exampleEnv [SetScrolling True None, Tick 300] exampleStart =
   exampleStart\<lparr>clock := 300, timers := [(1, 1000)], nextTimer := 2, isScrolling := True, scrollTimeout := Some 1\<rparr>"
  by code_simp


lemma observeAll_Inl: "observeAll xs s = Inl (e, s') \<Longrightarrow> e = TypeError"
  by (induction xs arbitrary: s) (auto simp: observe_def split: item.splits sum.splits)

lemma observeAll_cases:
  "(\<exists>s'. observeAll xs s = Inr s') \<or> (\<exists>s'. observeAll xs s = Inl (TypeError, s'))"
proof (cases "observeAll xs s")
  case (Inl x)
  obtain e s' where "x = (e, s')" by (cases x)
  then show ?thesis using Inl observeAll_Inl[of xs s e s'] by simp
next
  case (Inr s')
  then show ?thesis by simp
qed




section \<open>Suppression after a navigation\<close>




section \<open>When the active link changes\<close>




section \<open>One live timer\<close>

text \<open>
  C3, as the scripts have it. On a page reached from a fresh observer by any sequence
  of events the timer table has at most one entry; \<^verbatim>\<open>setScrolling(true, d)\<close>, the one
  call that arms suppression, leaves exactly one timer, the fresh one, due after the
  delay of \<open>d\<close> counted from the time of the call; the timer it replaced never fires
  afterwards, whatever the host delivers later. A click (the navigation) cancels no
  timer and starts none: the timers, \<open>scrollTimeout\<close>, the next handle and the flag are
  after it what they were before.
\<close>

theorem one_live_timer:
  assumes "createSectionObserver (observerOptions env) (newPage d) = Inr s0"
  shows "length (timers (run env evs s0)) \<le> 1
       \<and> timers (setScrolling True dur (run env evs s0)) =
           [(nextTimer (run env evs s0), clock (run env evs s0) + timerDelay (durationOf dur))]
       \<and> (\<forall>h later. h \<in> fst ` set (timers (run env evs s0)) \<longrightarrow>
             timerFires h (run env later (setScrolling True dur (run env evs s0))) =
               run env later (setScrolling True dur (run env evs s0)))
       \<and> (\<forall>n. timers (step env (Click n) (run env evs s0)) = timers (run env evs s0) \<and>
               scrollTimeout (step env (Click n) (run env evs s0)) = scrollTimeout (run env evs s0) \<and>
               nextTimer (step env (Click n) (run env evs s0)) = nextTimer (run env evs s0) \<and>
               isScrolling (step env (Click n) (run env evs s0)) = isScrolling (run env evs s0))"
proof -
  let ?s = "run env evs s0"
  have ok: "timersOk ?s" using assms by (intro timersOk_run timersOk_create)
  have fresh: "handlesFresh ?s" using assms by (intro handlesFresh_run handlesFresh_create)
  have one: "length (timers ?s) \<le> 1" using ok by (auto simp: timersOk_cases)
  have eq: "setScrolling True dur ?s =
     ?s\<lparr>isScrolling := True, timers := [(nextTimer ?s, clock ?s + timerDelay (durationOf dur))],
        nextTimer := Suc (nextTimer ?s), scrollTimeout := Some (nextTimer ?s)\<rparr>"
    using ok by (rule setScrolling_true_ok)
  have sup: "timerFires h (run env later (setScrolling True dur ?s)) =
               run env later (setScrolling True dur ?s)"
    if "h \<in> fst ` set (timers ?s)" for h later
  proof -
    from that fresh have "h < nextTimer ?s" by (auto simp: handlesFresh_def)
    then have "retired h (setScrolling True dur ?s)" by (simp add: eq retired_def)
    then show ?thesis by (intro retired_never_fires retired_run)
  qed
  have click: "timers (step env (Click n) ?s) = timers ?s \<and>
               scrollTimeout (step env (Click n) ?s) = scrollTimeout ?s \<and>
               nextTimer (step env (Click n) ?s) = nextTimer ?s \<and>
               isScrolling (step env (Click n) ?s) = isScrolling ?s" for n
    by (simp only: click_fields)
  have tm: "timers (setScrolling True dur ?s) =
      [(nextTimer ?s, clock ?s + timerDelay (durationOf dur))]"
    by (simp add: eq)
  show ?thesis using one tm sup click by blast
qed

text \<open>
  On the example page: 300 ms into a first window of 1000 ms, \<^verbatim>\<open>setScrolling(true, 500)\<close>
  leaves the one timer due at 800 ms, and the handle of the first never fires; a
  click at that moment leaves the first timer as it is.
\<close>

theorem one_live_timer_witness:
  "createSectionObserver (observerOptions exampleEnv) (newPage exampleDoc) = Inr exampleStart
   \<and> timers (run exampleEnv [SetScrolling True None, Tick 300] exampleStart) = [(1, 1000)]
   \<and> timers (setScrolling True (Some 500)
         (run exampleEnv [SetScrolling True None, Tick 300] exampleStart)) = [(2, 800)]
   \<and> timerFires 1 (run exampleEnv [Tick 5000] (setScrolling True (Some 500)
         (run exampleEnv [SetScrolling True None, Tick 300] exampleStart))) =
       run exampleEnv [Tick 5000] (setScrolling True (Some 500)
         (run exampleEnv [SetScrolling True None, Tick 300] exampleStart))
   \<and> timers (step exampleEnv (Click 2)
         (run exampleEnv [SetScrolling True None, Tick 300] exampleStart)) = [(1, 1000)]"
proof -
  note t = one_live_timer[OF example_create,
      of "[SetScrolling True None, Tick 300]" "Some 500"]
  have b: "timers (run exampleEnv [SetScrolling True None, Tick 300] exampleStart) = [(1, 1000)]"
    by (simp add: ex_run1)
  have m: "1 \<in> fst ` set (timers (run exampleEnv [SetScrolling True None, Tick 300] exampleStart))"
    by (simp add: ex_run1)
  note f = t[THEN conjunct2, THEN conjunct2, THEN conjunct1, THEN spec, THEN spec, THEN mp, OF m]
  have v: "[(nextTimer (run exampleEnv [SetScrolling True None, Tick 300] exampleStart),
          clock (run exampleEnv [SetScrolling True None, Tick 300] exampleStart)
            + timerDelay (durationOf (Some 500)))] = [(2, 800)]"
    by code_simp
  note n = t[THEN conjunct2, THEN conjunct1, unfolded v]
  note c = t[THEN conjunct2, THEN conjunct2, THEN conjunct2, THEN spec, THEN conjunct1, unfolded b]
  show ?thesis by (intro conjI) (rule example_create b n f c)+
qed

text \<open>
  A navigation during a window starts no fresh window: a click on the link to \<^verbatim>\<open>api\<close>
  900 ms into a window of 1000 ms marks the link and leaves the timer due at 1000 ms,
  where it expires, 100 ms after the click.
\<close>

theorem click_rearms_nothing_counterexample:
  "timers (run exampleEnv [Click 0, SetScrolling True None, Tick 900] exampleStart) = [(1, 1000)]
   \<and> timers (run exampleEnv [Click 0, SetScrolling True None, Tick 900, Click 2] exampleStart) = [(1, 1000)]
   \<and> clock (run exampleEnv [Click 0, SetScrolling True None, Tick 900, Click 2] exampleStart) = 900
   \<and> markedLinks ''active'' [0, 1, 2]
        (doc (run exampleEnv [Click 0, SetScrolling True None, Tick 900, Click 2] exampleStart)) = [2]
   \<and> \<not> isScrolling (run exampleEnv
        [Click 0, SetScrolling True None, Tick 900, Click 2, Tick 100, TimerFires 1] exampleStart)"
  by code_simp

section \<open>Arming twice\<close>

text \<open>
  C4. Two calls \<^verbatim>\<open>setScrolling(true, d1)\<close>, \<^verbatim>\<open>setScrolling(true, d2)\<close> in immediate
  succession leave the same flag and the same single expiry time as the one call
  \<^verbatim>\<open>setScrolling(true, d2)\<close>; the two pages differ in nothing but the number of the
  timer's handle.
\<close>

theorem suppress_twice_as_once:
  assumes "createSectionObserver (observerOptions env) (newPage d) = Inr s0"
  shows "isScrolling (setScrolling True d2 (setScrolling True d1 (run env evs s0))) =
           isScrolling (setScrolling True d2 (run env evs s0))
       \<and> map snd (timers (setScrolling True d2 (setScrolling True d1 (run env evs s0)))) =
           map snd (timers (setScrolling True d2 (run env evs s0)))
       \<and> map snd (timers (setScrolling True d2 (run env evs s0))) =
           [clock (run env evs s0) + timerDelay (durationOf d2)]
       \<and> isScrolling (setScrolling True d2 (run env evs s0))
       \<and> setScrolling True d2 (setScrolling True d1 (run env evs s0)) =
           (setScrolling True d2 (run env evs s0))
             \<lparr>timers := [(Suc (nextTimer (run env evs s0)),
                          clock (run env evs s0) + timerDelay (durationOf d2))],
              nextTimer := Suc (Suc (nextTimer (run env evs s0))),
              scrollTimeout := Some (Suc (nextTimer (run env evs s0)))\<rparr>"
proof -
  let ?s = "run env evs s0"
  have ok: "timersOk ?s" using assms by (intro timersOk_run timersOk_create)
  note tw = setScrolling_true_twice[OF ok, of d2 d1]
  note on = setScrolling_true_ok[OF ok, of d2]
  show ?thesis by (simp add: tw on)
qed

text \<open>
  On the example page, 50 ms after the start: 700 ms and then 200 ms, or 200 ms alone,
  leave one timer due at 250 ms.
\<close>

theorem suppress_twice_as_once_witness:
  "createSectionObserver (observerOptions exampleEnv) (newPage exampleDoc) = Inr exampleStart
   \<and> map snd (timers (setScrolling True (Some 200) (setScrolling True (Some 700)
        (run exampleEnv [Tick 50] exampleStart)))) = [250]
   \<and> map snd (timers (setScrolling True (Some 200)
        (run exampleEnv [Tick 50] exampleStart))) = [250]
   \<and> isScrolling (setScrolling True (Some 200) (setScrolling True (Some 700)
        (run exampleEnv [Tick 50] exampleStart)))"
proof -
  note t = suppress_twice_as_once[OF example_create, of "Some 200" "Some 700" "[Tick 50]"]
  have c: "[clock (run exampleEnv [Tick 50] exampleStart) + timerDelay (durationOf (Some 200))] = [250]"
    by code_simp
  note b = t[THEN conjunct2, THEN conjunct2, THEN conjunct1, unfolded c]
  note a = t[THEN conjunct2, THEN conjunct1, unfolded b]
  note f = t[THEN conjunct2, THEN conjunct2, THEN conjunct2, THEN conjunct1]
  note f' = f[folded t[THEN conjunct1]]
  show ?thesis by (intro conjI) (rule example_create a b f')+
qed

section \<open>No de-duplication\<close>

text \<open>
  C5, as the scripts have it. The observer's callback keeps no record of the identifier
  it passed before. Unless it is suppressed (\<open>disableDuringScroll\<close> and \<open>isScrolling\<close>
  both true), a batch does to the document and to the callback log what \<open>batchEffect\<close>
  says: every intersecting entry, in the order of the batch and up to the first
  invocation that throws, invokes \<^verbatim>\<open>onSectionChange\<close> once with the \<^verbatim>\<open>id\<close> of its target,
  whatever was passed before. A single intersecting entry appends its target's id to the
  log and leaves the document the callback leaves. Without a callback, and when
  suppressed, a batch does nothing.
\<close>

theorem callback_once_per_entry:
  "(\<not> (disableDuringScrollOf opts \<and> isScrolling s) \<and> onSectionChange opts = Some f \<longrightarrow>
      observerCallback opts es s = batchEffect f es s)
   \<and> (\<not> (disableDuringScrollOf opts \<and> isScrolling s) \<and> onSectionChange opts = Some f \<and>
       isIntersecting e \<longrightarrow>
        calls (after (observerCallback opts [e] s)) =
          calls s @ [getAttribute_id (doc s) (target e)] \<and>
        doc (after (observerCallback opts [e] s)) =
          after (f (getAttribute_id (doc s) (target e)) (doc s)))
   \<and> (onSectionChange opts = None \<longrightarrow> observerCallback opts es s = Inr s)
   \<and> (disableDuringScrollOf opts \<and> isScrolling s \<longrightarrow> observerCallback opts es s = Inr s)"
proof (intro conjI impI)
  assume a: "\<not> (disableDuringScrollOf opts \<and> isScrolling s) \<and> onSectionChange opts = Some f"
  then have "observerCallback opts es s = forEachEntry opts es s"
    by (auto simp: observerCallback_def)
  then show "observerCallback opts es s = batchEffect f es s"
    using a by (simp add: forEachEntry_batchEffect)
next
  assume a: "\<not> (disableDuringScrollOf opts \<and> isScrolling s) \<and> onSectionChange opts = Some f \<and>
       isIntersecting e"
  then have "after (observerCallback opts [e] s) =
      after (invoke opts (getAttribute_id (doc s) (target e)) s)"
    by (auto simp: observerCallback_def split: sum.splits)
  then have r: "after (observerCallback opts [e] s) =
      s\<lparr>doc := after (f (getAttribute_id (doc s) (target e)) (doc s)),
        calls := calls s @ [getAttribute_id (doc s) (target e)]\<rparr>"
    using a by (simp add: invoke_after)
  show "calls (after (observerCallback opts [e] s)) = calls s @ [getAttribute_id (doc s) (target e)]"
    unfolding r by simp
  show "doc (after (observerCallback opts [e] s)) =
          after (f (getAttribute_id (doc s) (target e)) (doc s))"
    unfolding r by simp
next
  assume "onSectionChange opts = None"
  then show "observerCallback opts es s = Inr s"
    by (simp add: observerCallback_def forEachEntry_no_callback)
next
  assume "disableDuringScrollOf opts \<and> isScrolling s"
  then show "observerCallback opts es s = Inr s"
    by (simp add: observerCallback_def)
qed

text \<open>
  On the example page: \<^verbatim>\<open>usage\<close> enters the band, leaves it and enters again; the
  callback is invoked twice with \<^verbatim>\<open>usage\<close>.
\<close>

theorem callback_once_per_entry_witness:
  "\<not> (disableDuringScrollOf (observerOptions exampleEnv) \<and> isScrolling exampleStart)
   \<and> onSectionChange (observerOptions exampleEnv) =
       Some (docsOnSectionChange exampleEngine sidebarSelectorDefault ''active'' [0, 1, 2])
   \<and> calls (after (observerCallback (observerOptions exampleEnv) [usageIn, usageOut, usageIn]
        exampleStart)) = [Some ''usage'', Some ''usage'']
   \<and> markedLinks ''active'' [0, 1, 2]
        (doc (after (observerCallback (observerOptions exampleEnv) [usageIn, usageOut, usageIn]
          exampleStart))) = [1]
   \<and> onSectionChange emptyOptions = None
   \<and> observerCallback emptyOptions [usageIn, usageIn] exampleStart = Inr exampleStart
   \<and> disableDuringScrollOf (observerOptions exampleEnv)
   \<and> isScrolling (run exampleEnv [SetScrolling True None] exampleStart)
   \<and> observerCallback (observerOptions exampleEnv) [usageIn, usageIn]
        (run exampleEnv [SetScrolling True None] exampleStart) =
       Inr (run exampleEnv [SetScrolling True None] exampleStart)"
proof -
  have h1: "\<not> (disableDuringScrollOf (observerOptions exampleEnv) \<and> isScrolling exampleStart)"
    by (simp add: exampleStart_def newPage_def)
  note a = callback_once_per_entry[of "observerOptions exampleEnv" exampleStart
      "docsOnSectionChange exampleEngine sidebarSelectorDefault ''active'' [0, 1, 2]"
      "[usageIn, usageOut, usageIn]" usageIn]
  note a1 = a[THEN conjunct1, THEN mp, OF conjI, OF h1 example_callback]
  have v: "calls (after (batchEffect
        (docsOnSectionChange exampleEngine sidebarSelectorDefault ''active'' [0, 1, 2])
        [usageIn, usageOut, usageIn] exampleStart)) = [Some ''usage'', Some ''usage'']"
    by code_simp
  have v2: "markedLinks ''active'' [0, 1, 2] (doc (after (batchEffect
        (docsOnSectionChange exampleEngine sidebarSelectorDefault ''active'' [0, 1, 2])
        [usageIn, usageOut, usageIn] exampleStart))) = [1]"
    by code_simp
  have n: "onSectionChange emptyOptions = None" by (simp add: emptyOptions_def)
  note b = callback_once_per_entry[of emptyOptions exampleStart f "[usageIn, usageIn]" e for f e,
      THEN conjunct2, THEN conjunct2, THEN conjunct1, THEN mp, OF n]
  have sc: "isScrolling (run exampleEnv [SetScrolling True None] exampleStart)" by code_simp
  note c = callback_once_per_entry[of "observerOptions exampleEnv"
      "run exampleEnv [SetScrolling True None] exampleStart" f "[usageIn, usageIn]" e for f e,
      THEN conjunct2, THEN conjunct2, THEN conjunct2, THEN mp, OF conjI, OF example_disable sc]
  show ?thesis
    by (intro conjI) (rule h1 example_callback v[folded a1] v2[folded a1] n b example_disable sc c)+
qed

text \<open>
  Two consecutive invocations with the same identifier, in three batches.
\<close>

theorem repeated_callback_counterexample:
  "\<not> noRepeat (calls (run exampleEnv [Batch [usageIn], Batch [usageOut], Batch [usageIn]] exampleStart))
   \<and> calls (run exampleEnv [Batch [usageIn], Batch [usageOut], Batch [usageIn]] exampleStart) =
       [Some ''usage'', Some ''usage'']"
  by code_simp

section \<open>What createSectionObserver checks\<close>

text \<open>
  C6, as the scripts have it. \<^verbatim>\<open>createSectionObserver\<close> succeeds exactly when the offset
  is not negative (the pasted root margin parses) and a list of sections is given all
  of whose members are elements; the list may be empty and may repeat identifiers.
  With a negative offset the constructor of the observer throws a \<^verbatim>\<open>SyntaxError\<close> and the
  page is as before; otherwise, without a list or with a member that is no element,
  it throws a \<^verbatim>\<open>TypeError\<close>. On success the watched nodes are exactly the elements of
  the list, each once, the flag is false, no timer is named, the margin is the one
  pasted from the offset, and document and timers are untouched.
\<close>

theorem createSectionObserver_checks:
  "((\<exists>s'. createSectionObserver opts s = Inr s') \<longleftrightarrow>
      0 \<le> offsetOf opts \<and> (\<exists>secs. sections opts = Some secs \<and> NotElement \<notin> set secs))
   \<and> (offsetOf opts < 0 \<longrightarrow> createSectionObserver opts s = Inl (SyntaxError, s))
   \<and> (0 \<le> offsetOf opts \<and>
       (sections opts = None \<or> (\<exists>secs. sections opts = Some secs \<and> NotElement \<in> set secs)) \<longrightarrow>
        (\<exists>s'. createSectionObserver opts s = Inl (TypeError, s')))
   \<and> (\<forall>s' secs. createSectionObserver opts s = Inr s' \<and> sections opts = Some secs \<longrightarrow>
        set (observed s') = {n. Element n \<in> set secs} \<and> distinct (observed s') \<and>
        \<not> isScrolling s' \<and> scrollTimeout s' = None \<and>
        rootMargin s' = rootMarginOf (offsetOf opts) \<and> doc s' = doc s \<and> timers s' = timers s)"
proof -
  let ?s2 = "s\<lparr>isScrolling := False, scrollTimeout := None, observed := [],
               rootMargin := rootMarginOf (offsetOf opts)\<rparr>"
  have neg: "createSectionObserver opts s = Inl (SyntaxError, s)" if "offsetOf opts < 0"
    using that validRootMargin_iff[of "offsetOf opts"]
    by (simp add: createSectionObserver_def offsetOf_def Let_def)
  have pos: "createSectionObserver opts s =
      (case sections opts of None \<Rightarrow> Inl (TypeError, ?s2) | Some secs \<Rightarrow> observeAll secs ?s2)"
    if "0 \<le> offsetOf opts"
    using that validRootMargin_iff[of "offsetOf opts"] unfolding offsetOf_def
    by (simp add: createSectionObserver_def Let_def)
  have iff: "(\<exists>s'. createSectionObserver opts s = Inr s') \<longleftrightarrow>
      0 \<le> offsetOf opts \<and> (\<exists>secs. sections opts = Some secs \<and> NotElement \<notin> set secs)"
  proof (cases "0 \<le> offsetOf opts")
    case False
    then show ?thesis using neg by simp
  next
    case True
    show ?thesis
    proof (cases "sections opts")
      case None
      then show ?thesis using True pos by simp
    next
      case (Some secs)
      then show ?thesis using True pos observeAll_Inr_iff[of secs ?s2] by simp
    qed
  qed
  have err: "\<exists>s'. createSectionObserver opts s = Inl (TypeError, s')"
    if "0 \<le> offsetOf opts \<and>
        (sections opts = None \<or> (\<exists>secs. sections opts = Some secs \<and> NotElement \<in> set secs))"
  proof (cases "sections opts")
    case None
    then show ?thesis using that pos by simp
  next
    case (Some secs)
    then have "NotElement \<in> set secs" using that by auto
    then have "\<not> (\<exists>s'. observeAll secs ?s2 = Inr s')" by (simp add: observeAll_Inr_iff)
    then have "\<exists>s'. observeAll secs ?s2 = Inl (TypeError, s')"
      using observeAll_cases[of secs ?s2] by blast
    then show ?thesis using that pos Some by simp
  qed
  have ok: "set (observed s') = {n. Element n \<in> set secs} \<and> distinct (observed s') \<and>
        \<not> isScrolling s' \<and> scrollTimeout s' = None \<and>
        rootMargin s' = rootMarginOf (offsetOf opts) \<and> doc s' = doc s \<and> timers s' = timers s"
    if "createSectionObserver opts s = Inr s' \<and> sections opts = Some secs" for s' secs
  proof -
    from that have cr: "createSectionObserver opts s = Inr s'" and sc: "sections opts = Some secs"
      by simp_all
    have nn: "0 \<le> offsetOf opts" using cr neg by (cases "0 \<le> offsetOf opts") simp_all
    have "createSectionObserver opts s = observeAll secs ?s2"
      unfolding pos[OF nn] sc by simp
    then have x: "observeAll secs ?s2 = Inr s'" using cr by simp
    then have a: "s' = after (observeAll secs ?s2)" by simp
    have flds: "\<not> isScrolling s' \<and> scrollTimeout s' = None \<and>
        rootMargin s' = rootMarginOf (offsetOf opts) \<and> doc s' = doc s \<and> timers s' = timers s"
      unfolding a by (simp add: observeAll_fields)
    show ?thesis using observeAll_set[OF x] observeAll_distinct[OF x] flds by simp
  qed
  show ?thesis using iff neg err ok by blast
qed

text \<open>
  The example page is set up; an offset of \<open>-5\<close> throws a \<^verbatim>\<open>SyntaxError\<close>; absent
  sections throw.
\<close>

theorem createSectionObserver_checks_witness:
  "0 \<le> offsetOf exampleOptions
   \<and> sections exampleOptions = Some [Element 3, Element 4, Element 5]
   \<and> createSectionObserver exampleOptions (newPage exampleDoc) = Inr exampleStart
   \<and> set (observed exampleStart) = {n. Element n \<in> set [Element 3, Element 4, Element 5]}
   \<and> offsetOf (exampleOptions\<lparr>offset := Some (- 5)\<rparr>) < 0
   \<and> createSectionObserver (exampleOptions\<lparr>offset := Some (- 5)\<rparr>) (newPage exampleDoc) =
       Inl (SyntaxError, newPage exampleDoc)
   \<and> sections (emptyOptions\<lparr>sections := None\<rparr>) = None
   \<and> isl (createSectionObserver (emptyOptions\<lparr>sections := None\<rparr>) (newPage exampleDoc))"
proof -
  note t = createSectionObserver_checks
  have o1: "0 \<le> offsetOf exampleOptions" by (simp add: offsetOf_def exampleOptions_def)
  have s1: "sections exampleOptions = Some [Element 3, Element 4, Element 5]"
    by (simp add: exampleOptions_def)
  have c1: "createSectionObserver exampleOptions (newPage exampleDoc) = Inr exampleStart"
    by code_simp
  note a = t[of exampleOptions "newPage exampleDoc", THEN conjunct2, THEN conjunct2, THEN conjunct2,
      THEN spec, THEN spec, THEN mp, OF conjI, OF c1 s1, THEN conjunct1]
  have o2: "offsetOf (exampleOptions\<lparr>offset := Some (- 5)\<rparr>) < 0" by (simp add: offsetOf_def)
  note b = t[of "exampleOptions\<lparr>offset := Some (- 5)\<rparr>" "newPage exampleDoc",
      THEN conjunct2, THEN conjunct1, THEN mp, OF o2]
  have n: "sections (emptyOptions\<lparr>sections := None\<rparr>) = None" by simp
  have o3: "0 \<le> offsetOf (emptyOptions\<lparr>sections := None\<rparr>)"
    by (simp add: offsetOf_def emptyOptions_def)
  have "\<exists>s'. createSectionObserver (emptyOptions\<lparr>sections := None\<rparr>) (newPage exampleDoc) =
      Inl (TypeError, s')"
    using t[of "emptyOptions\<lparr>sections := None\<rparr>" "newPage exampleDoc",
      THEN conjunct2, THEN conjunct2, THEN conjunct1] o3 n by blast
  then have c: "isl (createSectionObserver (emptyOptions\<lparr>sections := None\<rparr>) (newPage exampleDoc))"
    by auto
  show ?thesis by (intro conjI) (rule o1 s1 c1 a o2 b n c)+
qed

text \<open>
  An empty list of sections is accepted, and so are two sections with the one id
  \<^verbatim>\<open>intro\<close>, both of which are watched.
\<close>

theorem no_validation_counterexample:
  "createSectionObserver emptyOptions (newPage exampleDoc) =
     Inr ((newPage exampleDoc)\<lparr>rootMargin := ''-120px 0px -66% 0px''\<rparr>)
   \<and> initDocsObserver exampleEngine docsDefaults (newPage exampleDocDup) =
       Inr ((newPage exampleDocDup)\<lparr>observed := [0, 1], rootMargin := ''-120px 0px -66% 0px''\<rparr>)
   \<and> getAttribute_id exampleDocDup 0 = getAttribute_id exampleDocDup 1"
  by code_simp

section \<open>A click on a link without target\<close>

text \<open>
  C7, as the scripts have it. The click listener of a link whose \<^verbatim>\<open>href\<close> names no
  element of the document returns normally and leaves the whole page as it is: the
  document with its marks, the flag, the timers, the logs.
\<close>

theorem click_on_missing_target_is_noop:
  assumes "link < length (doc s)" and "hrefAttr (doc s ! link) = Some h"
    and "getElementById (doc s) (drop 1 h) = None"
  shows "clickHandler css nav link s = Inr s \<and> step env (Click link) s = s"
proof -
  have a: "clickHandler c nv link s = Inr s" for c nv
    using assms by (simp add: clickHandler_def)
  then show ?thesis by (simp split: option.splits)
qed

text \<open>
  On the example page with a further link to \<^verbatim>\<open>#missing\<close>.
\<close>

theorem click_on_missing_target_is_noop_witness:
  "6 < length (doc (newPage exampleDocOrphan))
   \<and> hrefAttr (doc (newPage exampleDocOrphan) ! 6) = Some ''#missing''
   \<and> getElementById (doc (newPage exampleDocOrphan)) (drop 1 ''#missing'') = None
   \<and> clickHandler exampleEngine exampleNavOrphan 6 (newPage exampleDocOrphan) =
       Inr (newPage exampleDocOrphan)
   \<and> step \<lparr>engineOf = exampleEngine, observerOptions = emptyOptions,
            docsNavOf = Some exampleNavOrphan\<rparr> (Click 6)
        (newPage exampleDocOrphan) = newPage exampleDocOrphan"
proof -
  have h1: "6 < length (doc (newPage exampleDocOrphan))" by code_simp
  have h2: "hrefAttr (doc (newPage exampleDocOrphan) ! 6) = Some ''#missing''" by code_simp
  have h3: "getElementById (doc (newPage exampleDocOrphan)) (drop 1 ''#missing'') = None"
    by code_simp
  note t = click_on_missing_target_is_noop[OF h1 h2 h3, of exampleEngine exampleNavOrphan
         "\<lparr>engineOf = exampleEngine, observerOptions = emptyOptions,
           docsNavOf = Some exampleNavOrphan\<rparr>"]
  show ?thesis
    by (intro conjI) (rule h1 h2 h3 t[THEN conjunct1] t[THEN conjunct2])+
qed

text \<open>
  The link to \<^verbatim>\<open>#missing\<close> is one of the links \<^verbatim>\<open>initDocsNav\<close> listens on, no element has
  the id, and the listener returns normally: nothing is reported.
\<close>

theorem missing_target_counterexample:
  "initDocsNav exampleEngine navDefaults exampleDocOrphan = Inr exampleNavOrphan
   \<and> 6 \<in> set (linksOf exampleNavOrphan)
   \<and> hrefAttr (exampleDocOrphan ! 6) = Some ''#missing''
   \<and> getElementById exampleDocOrphan ''missing'' = None
   \<and> clickHandler exampleEngine exampleNavOrphan 6 (newPage exampleDocOrphan) =
       Inr (newPage exampleDocOrphan)"
  by code_simp

section \<open>At most one active link\<close>




section \<open>Early release\<close>



section \<open>disableDuringScroll: false\<close>




end
